theory Spec2Isabelle
  imports Complex_Main
begin

section \<open>Data model\<close>

text \<open>
  The posts of \<^verbatim>\<open>mock/data.json\<close>, as \<^verbatim>\<open>App.jsx\<close> reads them: every post carries an
  author (name and avatar), display strings, a publish date and a list of categories.
  Identifiers, dates and avatar references are opaque to the logic and kept as strings.
\<close>

record author =
  name :: string
  avatar :: string

record category =
  cat_id :: string
  cat_name :: string

record post =
  post_id :: string
  author :: author
  title :: string
  summary :: string
  publishDate :: string
  categories :: "category list"

text \<open>
  An option of the select dropdown, \<^verbatim>\<open>{ value: ..., label: ... }\<close>.
\<close>

record author_option =
  opt_value :: string
  opt_label :: string

text \<open>
  The two \<^verbatim>\<open>useState\<close> cells of the component. \<^verbatim>\<open>selectedAuthor\<close> is \<^verbatim>\<open>null\<close>
  (here \<open>None\<close>) or the option object handed over by the dropdown; \<^verbatim>\<open>currentPage\<close> is
  the number handed over by the pager, an integer.
\<close>

record state =
  selectedAuthor :: "author_option option"
  currentPage :: int

text \<open>
  The argument of the pager's callback, \<^verbatim>\<open>{ selected: ... }\<close>.
\<close>

record selected_page =
  selected :: int

definition initial_state :: state where
  "initial_state = \<lparr>selectedAuthor = None, currentPage = 0\<rparr>"

section \<open>JavaScript library functions used by the component\<close>

text \<open>
  \<^verbatim>\<open>new Set(iterable)\<close> adds the elements one by one; an element already present is
  skipped, and iteration order is insertion order. \<^verbatim>\<open>Array.from\<close> lists the set in
  that order. The set is kept as the list of its elements in insertion order.
\<close>

definition Set_add :: "'a list \<Rightarrow> 'a \<Rightarrow> 'a list" where
  "Set_add s x = (if x \<in> set s then s else s @ [x])"

definition new_Set :: "'a list \<Rightarrow> 'a list" where
  "new_Set xs = foldl Set_add [] xs"

definition Array_from :: "'a list \<Rightarrow> 'a list" where
  "Array_from s = s"

text \<open>
  \<^verbatim>\<open>Array.prototype.slice(start, end)\<close> on integer arguments: a negative index counts
  from the end of the array, both indices are clamped to \<open>[0, length]\<close>, and the result
  is empty when the clamped end does not exceed the clamped start.
\<close>

definition slice :: "'a list \<Rightarrow> int \<Rightarrow> int \<Rightarrow> 'a list" where
  "slice xs start stop =
     (let len = int (length xs);
          k = (if start < 0 then max (len + start) 0 else min start len);
          final = (if stop < 0 then max (len + stop) 0 else min stop len)
      in take (nat (final - k)) (drop (nat k) xs))"

section \<open>The component\<close>

text \<open>
  The functions below take \<open>posts\<close>, the list \<^verbatim>\<open>postData.posts\<close>, and the state cells
  they read as arguments.
\<close>

definition POSTS_PER_PAGE :: nat where
  "POSTS_PER_PAGE = 3"

definition uniqueAuthors :: "post list \<Rightarrow> string list" where
  "uniqueAuthors posts = Array_from (new_Set (map (\<lambda>post. name (author post)) posts))"

definition handleAuthorChange :: "state \<Rightarrow> author_option option \<Rightarrow> state" where
  "handleAuthorChange s selectedOption =
     (s\<lparr>selectedAuthor := selectedOption\<rparr>)\<lparr>currentPage := 0\<rparr>"

definition handlePageChange :: "state \<Rightarrow> selected_page \<Rightarrow> state" where
  "handlePageChange s selectedPage = s\<lparr>currentPage := selected selectedPage\<rparr>"

text \<open>
  \<^verbatim>\<open>selectedAuthor?.value\<close> is truthy exactly when the selection is an object whose
  value is a non-empty string.
\<close>

definition filteredPosts :: "post list \<Rightarrow> author_option option \<Rightarrow> post list" where
  "filteredPosts posts sel =
     (case sel of
        None \<Rightarrow> posts
      | Some opt \<Rightarrow>
          if opt_value opt \<noteq> []
          then filter (\<lambda>post. name (author post) = opt_value opt) posts
          else posts)"

text \<open>
  \<^verbatim>\<open>Math.ceil(filteredPosts.length / POSTS_PER_PAGE)\<close>. The quotient of an array length
  by 3 is taken exactly: rounding to a double never crosses an integer there.
\<close>

definition pageCount :: "post list \<Rightarrow> int" where
  "pageCount fp = \<lceil>real (length fp) / real POSTS_PER_PAGE\<rceil>"

definition offset :: "int \<Rightarrow> int" where
  "offset page = page * int POSTS_PER_PAGE"

definition currentPagePosts :: "post list \<Rightarrow> int \<Rightarrow> post list" where
  "currentPagePosts fp page = slice fp (offset page) (offset page + int POSTS_PER_PAGE)"

definition authorOptions :: "post list \<Rightarrow> author_option list" where
  "authorOptions posts =
     \<lparr>opt_value = [], opt_label = ''Show All''\<rparr> #
     map (\<lambda>a. \<lparr>opt_value = a, opt_label = a\<rparr>) (uniqueAuthors posts)"

text \<open>
  What the component returns, as far as the logic decides it: the section of articles
  or the ``no books found'' paragraph, and the pager with its page count or nothing.
\<close>

datatype content = Articles "post list" | NoBooksFound

record view =
  options :: "author_option list"
  body :: content
  pagination :: "int option"

definition App :: "post list \<Rightarrow> state \<Rightarrow> view" where
  "App posts s =
     (let fp = filteredPosts posts (selectedAuthor s);
          cpp = currentPagePosts fp (currentPage s)
      in \<lparr>options = authorOptions posts,
          body = (if length cpp > 0 then Articles cpp else NoBooksFound),
          pagination = (if length fp > POSTS_PER_PAGE then Some (pageCount fp) else None)\<rparr>)"

section \<open>Reference notions of the specification\<close>

text \<open>
  The author names of a collection, in the order of the posts.
\<close>

definition author_names :: "post list \<Rightarrow> string list" where
  "author_names posts = map (\<lambda>post. name (author post)) posts"

text \<open>
  First-appearance order: the elements of a list at the positions where the element
  has not occurred before, in the order of these positions.
\<close>

definition first_appearances :: "'a list \<Rightarrow> 'a list" where
  "first_appearances xs =
     map (\<lambda>i. xs ! i) (filter (\<lambda>i. xs ! i \<notin> set (take i xs)) [0..<length xs])"

text \<open>
  The events the two widgets send, and the contract of the pager: a page-change event
  carries an index of \<open>[0, pageCount)\<close>, for the page count of the state in which the
  event arrives. The dropdown may send any option, or \<open>None\<close> when it is cleared.
\<close>

datatype event = AuthorChange "author_option option" | PageChange int

fun step :: "state \<Rightarrow> event \<Rightarrow> state" where
  "step s (AuthorChange selectedOption) = handleAuthorChange s selectedOption"
| "step s (PageChange i) = handlePageChange s \<lparr>selected = i\<rparr>"

fun event_ok :: "post list \<Rightarrow> state \<Rightarrow> event \<Rightarrow> bool" where
  "event_ok posts s (AuthorChange selectedOption) = True"
| "event_ok posts s (PageChange i) =
     (0 \<le> i \<and> i < pageCount (filteredPosts posts (selectedAuthor s)))"

fun events_ok :: "post list \<Rightarrow> state \<Rightarrow> event list \<Rightarrow> bool" where
  "events_ok posts s [] = True"
| "events_ok posts s (e # es) = (event_ok posts s e \<and> events_ok posts (step s e) es)"

definition run :: "state \<Rightarrow> event list \<Rightarrow> state" where
  "run s es = foldl step s es"

text \<open>
  The page invariant of a state, after the derived values are recomputed: the current
  page is a page of the filtered list, or there is no page at all and nothing is shown.
\<close>

definition page_invariant :: "post list \<Rightarrow> state \<Rightarrow> bool" where
  "page_invariant posts s =
     (let fp = filteredPosts posts (selectedAuthor s)
      in (0 \<le> currentPage s \<and> currentPage s < pageCount fp) \<or>
         (pageCount fp = 0 \<and> currentPagePosts fp (currentPage s) = []))"

text \<open>
  Sample data: seven posts, two by Alice and five by Bob.
\<close>

definition sample_post :: "string \<Rightarrow> string \<Rightarrow> post" where
  "sample_post i a =
     \<lparr>post_id = i, author = \<lparr>name = a, avatar = []\<rparr>, title = [], summary = [],
      publishDate = [], categories = []\<rparr>"

definition sample_posts :: "post list" where
  "sample_posts =
     [sample_post ''1'' ''Alice'', sample_post ''2'' ''Bob'', sample_post ''3'' ''Bob'',
      sample_post ''4'' ''Alice'', sample_post ''5'' ''Bob'', sample_post ''6'' ''Bob'',
      sample_post ''7'' ''Bob'']"

section \<open>Auxiliary facts\<close>

lemma first_appearances_snoc:
  "first_appearances (xs @ [x]) = first_appearances xs @ (if x \<in> set xs then [] else [x])"
proof -
  have keep: "filter (\<lambda>i. (xs @ [x]) ! i \<notin> set (take i (xs @ [x]))) [0..<length xs]
      = filter (\<lambda>i. xs ! i \<notin> set (take i xs)) [0..<length xs]"
    by (rule filter_cong) (auto simp: nth_append)
  have old: "map (\<lambda>i. (xs @ [x]) ! i) (filter (\<lambda>i. xs ! i \<notin> set (take i xs)) [0..<length xs])
      = map (\<lambda>i. xs ! i) (filter (\<lambda>i. xs ! i \<notin> set (take i xs)) [0..<length xs])"
    by (rule map_cong) (auto simp: nth_append)
  have idx: "[0..<length (xs @ [x])] = [0..<length xs] @ [length xs]"
    by simp
  have new: "filter (\<lambda>i. (xs @ [x]) ! i \<notin> set (take i (xs @ [x]))) [length xs]
      = (if x \<in> set xs then [] else [length xs])"
    by simp
  have "first_appearances (xs @ [x])
      = map (\<lambda>i. (xs @ [x]) ! i) (filter (\<lambda>i. xs ! i \<notin> set (take i xs)) [0..<length xs])
        @ map (\<lambda>i. (xs @ [x]) ! i) (if x \<in> set xs then [] else [length xs])"
    unfolding first_appearances_def idx filter_append map_append keep new ..
  also have "\<dots> = first_appearances xs @ (if x \<in> set xs then [] else [x])"
    unfolding old first_appearances_def by simp
  finally show ?thesis .
qed

lemma first_appearances_Nil: "first_appearances [] = []"
  by (simp add: first_appearances_def)

lemma set_first_appearances: "set (first_appearances xs) = set xs"
  by (induction xs rule: rev_induct) (auto simp: first_appearances_snoc first_appearances_Nil)

lemma distinct_first_appearances: "distinct (first_appearances xs)"
  by (induction xs rule: rev_induct)
     (auto simp: first_appearances_snoc set_first_appearances first_appearances_Nil)

lemma new_Set_first_appearances: "new_Set xs = first_appearances xs"
proof (induction xs rule: rev_induct)
  case Nil
  show ?case by (simp add: new_Set_def first_appearances_def)
next
  case (snoc x xs)
  have "new_Set (xs @ [x]) = Set_add (new_Set xs) x"
    by (simp add: new_Set_def)
  also have "\<dots> = first_appearances xs @ (if x \<in> set xs then [] else [x])"
    by (simp add: snoc.IH Set_add_def set_first_appearances)
  finally show ?case
    by (simp add: first_appearances_snoc)
qed

lemma pageCount_div: "pageCount F = (int (length F) + 2) div 3"
proof -
  have "\<lceil>real (length F) / real POSTS_PER_PAGE\<rceil> = \<lceil>of_int (int (length F)) / (of_int 3 :: real)\<rceil>"
    by (simp add: POSTS_PER_PAGE_def)
  also have "\<dots> = - (- int (length F) div 3)"
    by (rule ceiling_divide_eq_div)
  also have "\<dots> = (int (length F) + 2) div 3"
    by presburger
  finally show ?thesis
    by (simp add: pageCount_def)
qed

lemma slice_nonneg:
  assumes "0 \<le> a" "a \<le> b"
  shows "slice xs a b = take (nat (b - a)) (drop (nat a) xs)"
proof (cases "a \<le> int (length xs)")
  case True
  with assms show ?thesis
    by (auto simp: slice_def Let_def min_def)
next
  case False
  with assms show ?thesis
    by (simp add: slice_def Let_def min_def)
qed

lemma currentPagePosts_take_drop:
  "0 \<le> page \<Longrightarrow> currentPagePosts F page = take 3 (drop (3 * nat page) F)"
  by (simp add: currentPagePosts_def offset_def POSTS_PER_PAGE_def slice_nonneg nat_mult_distrib mult.commute)

lemma take_drop_nth_range:
  "take n (drop m xs) = map (\<lambda>i. xs ! i) [m..<min (m + n) (length xs)]"
proof (rule nth_equalityI)
  show "length (take n (drop m xs)) = length (map (\<lambda>i. xs ! i) [m..<min (m + n) (length xs)])"
    by (auto simp: min_def)
next
  fix i
  assume "i < length (take n (drop m xs))"
  then have "i < n" and "m + i < length xs"
    by auto
  then show "take n (drop m xs) ! i = map (\<lambda>i. xs ! i) [m..<min (m + n) (length xs)] ! i"
    by (simp add: nth_map_upt)
qed

lemma concat_pages:
  "concat (map (\<lambda>p. take 3 (drop (3 * p) F)) [0..<n]) = take (3 * n) F"
proof (induction n)
  case 0
  show ?case by simp
next
  case (Suc n)
  have "take (3 * Suc n) F = take (3 * n + 3) F" by (simp add: add.commute)
  also have "\<dots> = take (3 * n) F @ take 3 (drop (3 * n) F)" by (rule take_add)
  finally show ?case using Suc.IH by simp
qed

lemma uniqueAuthors_first_appearances:
  "uniqueAuthors P = first_appearances (author_names P)"
  by (simp add: uniqueAuthors_def Array_from_def author_names_def new_Set_first_appearances)

lemma pages_concat:
  "concat (map (\<lambda>p. currentPagePosts F (int p)) [0..<nat (pageCount F)]) = F"
proof -
  have "map (\<lambda>p. currentPagePosts F (int p)) [0..<nat (pageCount F)]
      = map (\<lambda>p. take 3 (drop (3 * p) F)) [0..<nat (pageCount F)]"
    by (simp add: currentPagePosts_take_drop)
  then have "concat (map (\<lambda>p. currentPagePosts F (int p)) [0..<nat (pageCount F)])
      = take (3 * nat (pageCount F)) F"
    by (simp only: concat_pages)
  moreover have "length F \<le> 3 * nat (pageCount F)"
  proof -
    have "int (length F) \<le> 3 * pageCount F"
      unfolding pageCount_div by presburger
    then show ?thesis by linarith
  qed
  ultimately show ?thesis by simp
qed

lemma full_page:
  assumes "0 \<le> p" "p + 1 < pageCount F"
  shows "length (currentPagePosts F p) = 3"
proof -
  have "3 * (pageCount F - 1) < int (length F)"
    unfolding pageCount_div by presburger
  with assms have "3 * p + 3 \<le> int (length F)"
    by presburger
  moreover have "int (3 * nat p + 3) = 3 * p + 3"
    using assms(1) by simp
  ultimately have "int (3 * nat p + 3) \<le> int (length F)"
    by (simp only:)
  then have "3 * nat p + 3 \<le> length F"
    by (simp only: of_nat_le_iff)
  then show ?thesis
    using assms(1) by (simp add: currentPagePosts_take_drop)
qed

lemma pageCount_pos_iff: "0 < pageCount F \<longleftrightarrow> F \<noteq> []"
proof -
  have "0 < (int (length F) + 2) div 3 \<longleftrightarrow> 0 < length F"
    by presburger
  then show ?thesis
    by (simp add: pageCount_div)
qed

lemma pageCount_zero_iff: "pageCount F = 0 \<longleftrightarrow> F = []"
proof -
  have "(int (length F) + 2) div 3 = 0 \<longleftrightarrow> length F = 0"
    by presburger
  then show ?thesis
    by (simp add: pageCount_div)
qed

lemma currentPagePosts_Nil: "currentPagePosts [] page = []"
  by (simp add: currentPagePosts_def slice_def Let_def)

lemma page_invariant_step:
  assumes "event_ok P s e"
  shows "page_invariant P (step s e)"
proof (cases e)
  case (AuthorChange sel)
  show ?thesis
  proof (cases "filteredPosts P sel = []")
    case True
    then show ?thesis
      by (simp add: AuthorChange page_invariant_def handleAuthorChange_def
          pageCount_zero_iff currentPagePosts_Nil)
  next
    case False
    then show ?thesis
      by (simp add: AuthorChange page_invariant_def handleAuthorChange_def pageCount_pos_iff)
  qed
next
  case (PageChange i)
  with assms show ?thesis
    by (simp add: page_invariant_def handlePageChange_def)
qed

lemma page_invariant_run:
  "page_invariant P s \<Longrightarrow> events_ok P s es \<Longrightarrow> page_invariant P (run s es)"
proof (induction es arbitrary: s)
  case Nil
  then show ?case by (simp add: run_def)
next
  case (Cons e es)
  from Cons.prems have "page_invariant P (step s e)" and "events_ok P (step s e) es"
    by (simp_all add: page_invariant_step)
  then have "page_invariant P (run (step s e) es)"
    by (rule Cons.IH)
  then show ?case by (simp add: run_def)
qed

lemma page_invariant_initial: "page_invariant P initial_state"
proof (cases "P = []")
  case True
  then show ?thesis
    by (simp add: page_invariant_def initial_state_def filteredPosts_def pageCount_zero_iff
        currentPagePosts_Nil)
next
  case False
  then show ?thesis
    by (simp add: page_invariant_def initial_state_def filteredPosts_def pageCount_pos_iff)
qed

lemma author_in_uniqueAuthors:
  "a \<in> set (uniqueAuthors P) \<longleftrightarrow> (\<exists>post \<in> set P. name (author post) = a)"
  by (auto simp: uniqueAuthors_first_appearances set_first_appearances author_names_def)

lemma currentPagePosts_first_page: "F \<noteq> [] \<Longrightarrow> currentPagePosts F 0 \<noteq> []"
  using currentPagePosts_take_drop [of 0 F] by simp

lemma filteredPosts_offered_nonempty:
  assumes "a \<in> set (uniqueAuthors P)"
  shows "filteredPosts P (Some \<lparr>opt_value = a, opt_label = a\<rparr>) \<noteq> []"
proof -
  from assms obtain post where post: "post \<in> set P" "name (author post) = a"
    by (auto simp: author_in_uniqueAuthors)
  show ?thesis
  proof (cases "a = []")
    case True
    with post show ?thesis
      by (auto simp: filteredPosts_def)
  next
    case False
    with post show ?thesis
      by (auto simp: filteredPosts_def filter_empty_conv)
  qed
qed

lemma currentPagePosts_in_range:
  assumes "0 \<le> p" "p < pageCount F"
  shows "currentPagePosts F p \<noteq> []"
proof -
  have "3 * (pageCount F - 1) < int (length F)"
    unfolding pageCount_div by presburger
  with assms have "3 * p < int (length F)"
    by presburger
  moreover have "int (3 * nat p) = 3 * p"
    using assms(1) by simp
  ultimately have "int (3 * nat p) < int (length F)"
    by (simp only:)
  then have "3 * nat p < length F"
    by (simp only: of_nat_less_iff)
  then show ?thesis
    using assms(1) by (simp add: currentPagePosts_take_drop)
qed

lemma reachable_page_nonempty:
  assumes "events_ok P initial_state es"
    and "filteredPosts P (selectedAuthor (run initial_state es)) \<noteq> []"
  shows "currentPagePosts (filteredPosts P (selectedAuthor (run initial_state es)))
           (currentPage (run initial_state es)) \<noteq> []"
proof -
  have "page_invariant P (run initial_state es)"
    using page_invariant_initial assms(1) by (rule page_invariant_run)
  with assms(2) have "0 \<le> currentPage (run initial_state es)"
    and "currentPage (run initial_state es) <
          pageCount (filteredPosts P (selectedAuthor (run initial_state es)))"
    by (auto simp: page_invariant_def Let_def pageCount_zero_iff)
  then show ?thesis
    by (rule currentPagePosts_in_range)
qed

section \<open>The properties of the specification\<close>

text \<open>
  Claim C1. For every post collection \<open>P\<close>, \<open>authorOptions P\<close> is the ``Show All''
  option with the empty value, followed by one option \<open>{value: a, label: a}\<close> for each
  author name \<open>a\<close> of \<open>P\<close> at its first appearance, in that order. Its length is one
  more than the number of distinct author names, and for the empty collection only
  ``Show All'' is left. The options after the first have pairwise different values;
  as the data model has no author with the empty name, which is the value of
  ``Show All'', no two options of the whole list share a value.
\<close>

theorem authorOptions_first_appearance_order:
  "authorOptions P =
     \<lparr>opt_value = [], opt_label = ''Show All''\<rparr> #
     map (\<lambda>a. \<lparr>opt_value = a, opt_label = a\<rparr>) (first_appearances (author_names P))
   \<and> length (authorOptions P) = 1 + card (set (author_names P))
   \<and> distinct (map opt_value (tl (authorOptions P)))
   \<and> ([] \<notin> set (author_names P) \<longrightarrow> distinct (map opt_value (authorOptions P)))
   \<and> authorOptions [] = [\<lparr>opt_value = [], opt_label = ''Show All''\<rparr>]"
proof -
  let ?ns = "first_appearances (author_names P)"
  have vals: "map opt_value (map (\<lambda>a. \<lparr>opt_value = a, opt_label = a\<rparr>) ?ns) = ?ns"
    by (simp add: comp_def)
  have card: "card (set (author_names P)) = length ?ns"
    using distinct_card [OF distinct_first_appearances, of "author_names P"]
    by (simp add: set_first_appearances)
  have eq: "authorOptions P =
     \<lparr>opt_value = [], opt_label = ''Show All''\<rparr> #
     map (\<lambda>a. \<lparr>opt_value = a, opt_label = a\<rparr>) ?ns"
    by (simp add: authorOptions_def uniqueAuthors_first_appearances)
  have len: "length (authorOptions P) = 1 + card (set (author_names P))"
    by (simp add: eq card)
  have d1: "distinct (map opt_value (tl (authorOptions P)))"
    by (simp add: eq vals distinct_first_appearances del: map_map)
  have d2: "[] \<notin> set (author_names P) \<longrightarrow> distinct (map opt_value (authorOptions P))"
    by (simp add: eq vals distinct_first_appearances set_first_appearances del: map_map)
  have e: "authorOptions [] = [\<lparr>opt_value = [], opt_label = ''Show All''\<rparr>]"
    by (simp add: authorOptions_def uniqueAuthors_first_appearances author_names_def
        first_appearances_Nil)
  from eq len d1 d2 e show ?thesis by blast
qed

theorem authorOptions_first_appearance_order_witness:
  "[] \<notin> set (author_names sample_posts)
   \<and> distinct (map opt_value (authorOptions sample_posts))
   \<and> authorOptions sample_posts =
       [\<lparr>opt_value = [], opt_label = ''Show All''\<rparr>,
        \<lparr>opt_value = ''Alice'', opt_label = ''Alice''\<rparr>,
        \<lparr>opt_value = ''Bob'', opt_label = ''Bob''\<rparr>]"
proof -
  have h: "[] \<notin> set (author_names sample_posts)"
    by (simp add: author_names_def sample_posts_def sample_post_def)
  have v: "authorOptions sample_posts =
       [\<lparr>opt_value = [], opt_label = ''Show All''\<rparr>,
        \<lparr>opt_value = ''Alice'', opt_label = ''Alice''\<rparr>,
        \<lparr>opt_value = ''Bob'', opt_label = ''Bob''\<rparr>]"
    by (simp add: authorOptions_def uniqueAuthors_def Array_from_def new_Set_def Set_add_def
        sample_posts_def sample_post_def)
  show ?thesis
    using h v authorOptions_first_appearance_order [of sample_posts] by blast
qed

text \<open>
  Claim C2. When the selection carries a non-empty value \<open>A\<close>, \<open>filteredPosts\<close> is the
  list of the posts whose author name is \<open>A\<close>, in their original order. When the
  selection is \<open>null\<close> or carries the empty value, \<open>filteredPosts\<close> is the whole
  collection.
\<close>

theorem filteredPosts_by_author:
  "(opt_value sel \<noteq> [] \<longrightarrow>
      filteredPosts P (Some sel) = filter (\<lambda>post. name (author post) = opt_value sel) P)
   \<and> filteredPosts P (Some \<lparr>opt_value = [], opt_label = l\<rparr>) = P
   \<and> filteredPosts P None = P"
  by (simp add: filteredPosts_def)

theorem filteredPosts_by_author_witness:
  "opt_value \<lparr>opt_value = ''Alice'', opt_label = ''Alice''\<rparr> \<noteq> []
   \<and> filteredPosts sample_posts (Some \<lparr>opt_value = ''Alice'', opt_label = ''Alice''\<rparr>) =
       [sample_post ''1'' ''Alice'', sample_post ''4'' ''Alice'']"
proof -
  have h: "opt_value \<lparr>opt_value = ''Alice'', opt_label = ''Alice''\<rparr> \<noteq> []"
    by simp
  show ?thesis
    using h filteredPosts_by_author
      [of "\<lparr>opt_value = ''Alice'', opt_label = ''Alice''\<rparr>" sample_posts]
    by (simp add: sample_posts_def sample_post_def)
qed

text \<open>
  Claim C3. \<open>pageCount\<close> is the ceiling of the length of the filtered list divided by 3:
  the least integer \<open>k\<close> with \<open>length F \<le> 3 * k\<close>. For the empty list it is 0.
\<close>

theorem pageCount_ceiling:
  "pageCount F = \<lceil>real (length F) / 3\<rceil>
   \<and> pageCount F = (int (length F) + 2) div 3
   \<and> int (length F) \<le> 3 * pageCount F
   \<and> 3 * (pageCount F - 1) < int (length F)
   \<and> pageCount [] = 0"
proof -
  have c: "pageCount F = \<lceil>real (length F) / 3\<rceil>"
    by (simp add: pageCount_def POSTS_PER_PAGE_def)
  have e: "pageCount ([] :: post list) = 0"
    by (simp add: pageCount_div)
  have "(int (length F) + 2) div 3 = (int (length F) + 2) div 3
   \<and> int (length F) \<le> 3 * ((int (length F) + 2) div 3)
   \<and> 3 * ((int (length F) + 2) div 3 - 1) < int (length F)"
    by presburger
  then have "pageCount F = (int (length F) + 2) div 3
   \<and> int (length F) \<le> 3 * pageCount F
   \<and> 3 * (pageCount F - 1) < int (length F)"
    by (simp only: pageCount_div [of F])
  with c e show ?thesis by blast
qed

text \<open>
  Claim C4. For a non-negative current page, \<open>currentPagePosts\<close> holds the elements of
  the filtered list at the positions from \<open>offset = currentPage * 3\<close> up to
  \<open>offset + 3\<close>, the upper bound clamped to the length of the list. When the offset is
  at or beyond the length, the result is the empty list; no input makes the slice fail.
\<close>

theorem currentPagePosts_slice:
  "0 \<le> page \<longrightarrow>
     currentPagePosts F page =
       map (\<lambda>i. F ! i) [nat (offset page) ..< min (nat (offset page) + 3) (length F)]
     \<and> currentPagePosts F page = take 3 (drop (nat (offset page)) F)
     \<and> (int (length F) \<le> offset page \<longrightarrow> currentPagePosts F page = [])"
proof
  assume nonneg: "0 \<le> page"
  have off: "nat (offset page) = 3 * nat page"
    using nonneg by (simp add: offset_def POSTS_PER_PAGE_def nat_mult_distrib mult.commute)
  have td: "currentPagePosts F page = take 3 (drop (nat (offset page)) F)"
    using nonneg by (simp add: currentPagePosts_take_drop off)
  have rng: "currentPagePosts F page =
       map (\<lambda>i. F ! i) [nat (offset page) ..< min (nat (offset page) + 3) (length F)]"
    unfolding td by (rule take_drop_nth_range)
  have emp: "int (length F) \<le> offset page \<longrightarrow> currentPagePosts F page = []"
    unfolding td by auto
  from rng td emp show
    "currentPagePosts F page =
       map (\<lambda>i. F ! i) [nat (offset page) ..< min (nat (offset page) + 3) (length F)]
     \<and> currentPagePosts F page = take 3 (drop (nat (offset page)) F)
     \<and> (int (length F) \<le> offset page \<longrightarrow> currentPagePosts F page = [])"
    by blast
qed

theorem currentPagePosts_slice_witness:
  "(0::int) \<le> 2 \<and> int (length sample_posts) \<le> offset 3
   \<and> currentPagePosts sample_posts 2 = [sample_post ''7'' ''Bob'']
   \<and> currentPagePosts sample_posts 3 = []"
proof -
  have h: "(0::int) \<le> 2" "(0::int) \<le> 3"
    by simp_all
  have l: "int (length sample_posts) \<le> offset 3"
    by (simp add: sample_posts_def offset_def POSTS_PER_PAGE_def)
  have o: "nat (offset 2) = 6"
    by (simp add: offset_def POSTS_PER_PAGE_def)
  show ?thesis
    using h l o currentPagePosts_slice [of 2 sample_posts]
      currentPagePosts_slice [of 3 sample_posts]
    by (simp add: sample_posts_def)
qed

text \<open>
  Claim C5. From every state, \<open>handleAuthorChange\<close> stores the new selection and sets
  the current page to 0.
\<close>

theorem handleAuthorChange_resets_page:
  "selectedAuthor (handleAuthorChange s newSelection) = newSelection
   \<and> currentPage (handleAuthorChange s newSelection) = 0
   \<and> handleAuthorChange s newSelection = \<lparr>selectedAuthor = newSelection, currentPage = 0\<rparr>"
  by (simp add: handleAuthorChange_def)

text \<open>
  Claim C6. The pages \<open>0, \<dots>, pageCount - 1\<close> of a filtered list, one after the other,
  give back the list; so their lengths add up to the length of the list. Every page
  before the last holds exactly 3 posts.
\<close>

theorem pages_partition:
  "concat (map (\<lambda>p. currentPagePosts F (int p)) [0..<nat (pageCount F)]) = F
   \<and> sum_list (map (\<lambda>p. length (currentPagePosts F (int p))) [0..<nat (pageCount F)]) = length F
   \<and> (\<forall>p. 0 \<le> p \<and> p + 1 < pageCount F \<longrightarrow> length (currentPagePosts F p) = 3)"
proof -
  have "length (concat (map (\<lambda>p. currentPagePosts F (int p)) [0..<nat (pageCount F)])) = length F"
    by (simp only: pages_concat)
  then have "sum_list (map (\<lambda>p. length (currentPagePosts F (int p))) [0..<nat (pageCount F)])
      = length F"
    by (simp add: length_concat comp_def)
  with pages_concat [of F] full_page [of _ F] show ?thesis by blast
qed

theorem pages_partition_witness:
  "pageCount sample_posts = 3
   \<and> (0::int) \<le> 1 \<and> 1 + 1 < pageCount sample_posts
   \<and> length (currentPagePosts sample_posts 1) = 3
   \<and> length (currentPagePosts sample_posts 2) = 1"
proof -
  have pc: "pageCount sample_posts = 3"
    by (simp add: pageCount_def POSTS_PER_PAGE_def sample_posts_def)
  have last: "length (currentPagePosts sample_posts 2) = 1"
    by (simp add: currentPagePosts_def offset_def slice_def POSTS_PER_PAGE_def sample_posts_def)
  show ?thesis
    using pc last pages_partition [of sample_posts] by simp
qed

text \<open>
  Claim C7. The pager is rendered exactly when the filtered list has more than 3 posts,
  and then with \<open>pageCount\<close> pages. With exactly 3 posts \<open>pageCount\<close> is 1 and no pager
  is rendered.
\<close>

theorem pagination_shown_iff:
  "(pagination (App P s) \<noteq> None) = (length (filteredPosts P (selectedAuthor s)) > 3)
   \<and> (length (filteredPosts P (selectedAuthor s)) > 3 \<longrightarrow>
        pagination (App P s) = Some (pageCount (filteredPosts P (selectedAuthor s))))
   \<and> (length (filteredPosts P (selectedAuthor s)) = 3 \<longrightarrow>
        pageCount (filteredPosts P (selectedAuthor s)) = 1 \<and> pagination (App P s) = None)"
  by (simp add: App_def Let_def POSTS_PER_PAGE_def pageCount_div)

theorem pagination_shown_iff_witness:
  "length (filteredPosts sample_posts (selectedAuthor initial_state)) > 3
   \<and> pagination (App sample_posts initial_state) = Some 3
   \<and> length (filteredPosts (take 3 sample_posts) (selectedAuthor initial_state)) = 3
   \<and> pageCount (filteredPosts (take 3 sample_posts) (selectedAuthor initial_state)) = 1
   \<and> pagination (App (take 3 sample_posts) initial_state) = None"
proof -
  have f: "filteredPosts sample_posts (selectedAuthor initial_state) = sample_posts"
    "filteredPosts (take 3 sample_posts) (selectedAuthor initial_state) = take 3 sample_posts"
    by (simp_all add: filteredPosts_def initial_state_def)
  have h1: "length (filteredPosts sample_posts (selectedAuthor initial_state)) > 3"
    unfolding f by (simp add: sample_posts_def)
  have h2: "length (filteredPosts (take 3 sample_posts) (selectedAuthor initial_state)) = 3"
    unfolding f by (simp add: sample_posts_def)
  have pc: "pageCount sample_posts = 3"
    by (simp add: pageCount_def POSTS_PER_PAGE_def sample_posts_def)
  show ?thesis
    using h1 h2 pagination_shown_iff [of sample_posts initial_state]
      pagination_shown_iff [of "take 3 sample_posts" initial_state]
    by (simp add: f pc)
qed

text \<open>
  Claim C8. Let the events after the initial state be such that every page-change event
  carries an index of \<open>[0, pageCount)\<close>, for the page count at the time of the event.
  Then in the state reached \<open>0 \<le> currentPage < pageCount\<close>, unless \<open>pageCount\<close> is 0, and
  then \<open>currentPagePosts\<close> is empty.
\<close>

theorem currentPage_below_pageCount:
  assumes "events_ok P initial_state es"
  shows "(0 \<le> currentPage (run initial_state es) \<and>
          currentPage (run initial_state es) <
            pageCount (filteredPosts P (selectedAuthor (run initial_state es))))
       \<or> (pageCount (filteredPosts P (selectedAuthor (run initial_state es))) = 0 \<and>
          currentPagePosts (filteredPosts P (selectedAuthor (run initial_state es)))
            (currentPage (run initial_state es)) = [])"
proof -
  have "page_invariant P (run initial_state es)"
    using page_invariant_initial assms by (rule page_invariant_run)
  then show ?thesis
    by (simp add: page_invariant_def Let_def)
qed

theorem currentPage_below_pageCount_witness:
  "events_ok sample_posts initial_state
     [AuthorChange (Some \<lparr>opt_value = ''Bob'', opt_label = ''Bob''\<rparr>), PageChange 1]
   \<and> currentPage (run initial_state
       [AuthorChange (Some \<lparr>opt_value = ''Bob'', opt_label = ''Bob''\<rparr>), PageChange 1]) = 1
   \<and> pageCount (filteredPosts sample_posts (selectedAuthor (run initial_state
       [AuthorChange (Some \<lparr>opt_value = ''Bob'', opt_label = ''Bob''\<rparr>), PageChange 1]))) = 2"
proof -
  let ?es = "[AuthorChange (Some \<lparr>opt_value = ''Bob'', opt_label = ''Bob''\<rparr>), PageChange 1]"
  have r: "run initial_state ?es =
      \<lparr>selectedAuthor = Some \<lparr>opt_value = ''Bob'', opt_label = ''Bob''\<rparr>, currentPage = 1\<rparr>"
    by (simp add: run_def initial_state_def handleAuthorChange_def handlePageChange_def)
  have pc: "pageCount (filteredPosts sample_posts
      (Some \<lparr>opt_value = ''Bob'', opt_label = ''Bob''\<rparr>)) = 2"
    by (simp add: pageCount_def POSTS_PER_PAGE_def filteredPosts_def sample_posts_def
        sample_post_def)
  have h: "events_ok sample_posts initial_state ?es"
    by (simp add: pc handleAuthorChange_def initial_state_def)
  show ?thesis
    using h currentPage_below_pageCount [OF h] by (simp add: r pc)
qed

text \<open>
  Claim C9. A selection that carries the empty value and the \<open>null\<close> selection give
  the same filtered posts, hence the same page count, the same posts of every page and
  the same rendering.
\<close>

theorem show_all_same_as_null:
  "filteredPosts P (Some \<lparr>opt_value = [], opt_label = l\<rparr>) = filteredPosts P None
   \<and> pageCount (filteredPosts P (Some \<lparr>opt_value = [], opt_label = l\<rparr>)) =
       pageCount (filteredPosts P None)
   \<and> currentPagePosts (filteredPosts P (Some \<lparr>opt_value = [], opt_label = l\<rparr>)) page =
       currentPagePosts (filteredPosts P None) page
   \<and> App P \<lparr>selectedAuthor = Some \<lparr>opt_value = [], opt_label = l\<rparr>, currentPage = page\<rparr> =
       App P \<lparr>selectedAuthor = None, currentPage = page\<rparr>"
  by (simp add: filteredPosts_def App_def)

text \<open>
  Claim C10. Let \<open>a\<close> be an author name of \<open>uniqueAuthors\<close> (the collection is then not
  empty). Selecting the option of \<open>a\<close> gives a non-empty filtered list and, on page 0,
  where \<open>handleAuthorChange\<close> leaves the component from any state, a non-empty
  \<open>currentPagePosts\<close>. Moreover, in every state that is reached from the initial state
  by events with valid page changes and in which the option of \<open>a\<close> is selected,
  \<open>currentPagePosts\<close> is not empty: the component renders articles, never the ``no
  books found'' paragraph.
\<close>

theorem offered_author_has_posts:
  assumes "a \<in> set (uniqueAuthors P)"
  shows "P \<noteq> []
     \<and> filteredPosts P (Some \<lparr>opt_value = a, opt_label = a\<rparr>) \<noteq> []
     \<and> currentPagePosts (filteredPosts P (Some \<lparr>opt_value = a, opt_label = a\<rparr>)) 0 \<noteq> []
     \<and> body (App P (handleAuthorChange s (Some \<lparr>opt_value = a, opt_label = a\<rparr>))) =
         Articles (currentPagePosts (filteredPosts P (Some \<lparr>opt_value = a, opt_label = a\<rparr>)) 0)
     \<and> (events_ok P initial_state es \<and>
          selectedAuthor (run initial_state es) = Some \<lparr>opt_value = a, opt_label = a\<rparr> \<longrightarrow>
          currentPagePosts (filteredPosts P (Some \<lparr>opt_value = a, opt_label = a\<rparr>))
            (currentPage (run initial_state es)) \<noteq> []
          \<and> body (App P (run initial_state es)) \<noteq> NoBooksFound
          \<and> body (App P (run initial_state es)) =
              Articles (currentPagePosts (filteredPosts P (Some \<lparr>opt_value = a, opt_label = a\<rparr>))
                (currentPage (run initial_state es))))"
proof -
  let ?sel = "Some \<lparr>opt_value = a, opt_label = a\<rparr>"
  have ne: "P \<noteq> []"
    using assms by (auto simp: author_in_uniqueAuthors)
  have f: "filteredPosts P ?sel \<noteq> []"
    using assms by (rule filteredPosts_offered_nonempty)
  then have c: "currentPagePosts (filteredPosts P ?sel) 0 \<noteq> []"
    by (rule currentPagePosts_first_page)
  then have b: "body (App P (handleAuthorChange s ?sel)) =
         Articles (currentPagePosts (filteredPosts P ?sel) 0)"
    by (simp add: App_def Let_def handleAuthorChange_def)
  have r: "currentPagePosts (filteredPosts P ?sel) (currentPage (run initial_state es)) \<noteq> []
          \<and> body (App P (run initial_state es)) \<noteq> NoBooksFound
          \<and> body (App P (run initial_state es)) =
              Articles (currentPagePosts (filteredPosts P ?sel)
                (currentPage (run initial_state es)))"
    if ok: "events_ok P initial_state es"
      and sel: "selectedAuthor (run initial_state es) = ?sel"
  proof -
    have "filteredPosts P (selectedAuthor (run initial_state es)) \<noteq> []"
      using f by (simp add: sel)
    with ok have "currentPagePosts (filteredPosts P (selectedAuthor (run initial_state es)))
           (currentPage (run initial_state es)) \<noteq> []"
      by (rule reachable_page_nonempty)
    then have n: "currentPagePosts (filteredPosts P ?sel) (currentPage (run initial_state es)) \<noteq> []"
      by (simp add: sel)
    then show ?thesis
      by (simp add: App_def Let_def sel)
  qed
  from ne f c b r show ?thesis by blast
qed

theorem offered_author_has_posts_witness:
  "''Bob'' \<in> set (uniqueAuthors sample_posts)
   \<and> events_ok sample_posts initial_state
        [AuthorChange (Some \<lparr>opt_value = ''Bob'', opt_label = ''Bob''\<rparr>), PageChange 1]
   \<and> selectedAuthor (run initial_state
        [AuthorChange (Some \<lparr>opt_value = ''Bob'', opt_label = ''Bob''\<rparr>), PageChange 1]) =
       Some \<lparr>opt_value = ''Bob'', opt_label = ''Bob''\<rparr>
   \<and> currentPage (run initial_state
        [AuthorChange (Some \<lparr>opt_value = ''Bob'', opt_label = ''Bob''\<rparr>), PageChange 1]) = 1
   \<and> body (App sample_posts (run initial_state
        [AuthorChange (Some \<lparr>opt_value = ''Bob'', opt_label = ''Bob''\<rparr>), PageChange 1])) =
       Articles [sample_post ''6'' ''Bob'', sample_post ''7'' ''Bob'']
   \<and> body (App sample_posts
        (handleAuthorChange initial_state (Some \<lparr>opt_value = ''Bob'', opt_label = ''Bob''\<rparr>))) =
       Articles [sample_post ''2'' ''Bob'', sample_post ''3'' ''Bob'', sample_post ''5'' ''Bob'']"
proof -
  let ?bob = "Some \<lparr>opt_value = ''Bob'', opt_label = ''Bob''\<rparr>"
  let ?es = "[AuthorChange ?bob, PageChange 1]"
  have h: "''Bob'' \<in> set (uniqueAuthors sample_posts)"
    by (simp add: uniqueAuthors_def Array_from_def new_Set_def Set_add_def sample_posts_def
        sample_post_def)
  have fp: "filteredPosts sample_posts ?bob =
      [sample_post ''2'' ''Bob'', sample_post ''3'' ''Bob'', sample_post ''5'' ''Bob'',
       sample_post ''6'' ''Bob'', sample_post ''7'' ''Bob'']"
    by (simp add: filteredPosts_def sample_posts_def sample_post_def)
  have r: "run initial_state ?es = \<lparr>selectedAuthor = ?bob, currentPage = 1\<rparr>"
    by (simp add: run_def initial_state_def handleAuthorChange_def handlePageChange_def)
  have pc: "pageCount (filteredPosts sample_posts ?bob) = 2"
    unfolding fp by (simp add: pageCount_def POSTS_PER_PAGE_def)
  have ok: "events_ok sample_posts initial_state ?es"
    by (simp add: pc handleAuthorChange_def initial_state_def)
  have p0: "currentPagePosts (filteredPosts sample_posts ?bob) 0 =
      [sample_post ''2'' ''Bob'', sample_post ''3'' ''Bob'', sample_post ''5'' ''Bob'']"
    unfolding fp by (simp add: currentPagePosts_def offset_def slice_def POSTS_PER_PAGE_def)
  have p1: "currentPagePosts (filteredPosts sample_posts ?bob) 1 =
      [sample_post ''6'' ''Bob'', sample_post ''7'' ''Bob'']"
    unfolding fp by (simp add: currentPagePosts_def offset_def slice_def POSTS_PER_PAGE_def)
  show ?thesis
    using h ok offered_author_has_posts [OF h, of initial_state ?es]
    by (simp add: r p0 p1)
qed

end
